theory Spec2Isabelle
  imports Main
begin

section \<open>Data model\<close>

text \<open>
  The two programs, \<^verbatim>\<open>job_shop_sequential.c\<close> and \<^verbatim>\<open>job_shop_parallel.c\<close>, share the
  structs \<^verbatim>\<open>Operation\<close> and \<^verbatim>\<open>JobShopProblem\<close> and the function
  \<^verbatim>\<open>find_available_time\<close>. C \<^verbatim>\<open>int\<close> values that hold times, durations and machine
  ids are modelled as \<open>int\<close>, and every sum of two of them that the code computes is
  taken modulo \<open>2\<^sup>3\<^sup>2\<close> into the range of a 32-bit \<^verbatim>\<open>int\<close> (\<open>int_add\<close>), as the
  compiled code does when a sum overflows. Array indices and counters that
  start at 0 and are only incremented are \<open>nat\<close>, and so are the dimensions
  \<^verbatim>\<open>num_jobs\<close>, \<^verbatim>\<open>num_machines\<close> and \<^verbatim>\<open>num_operations\<close> of a loaded problem, which
  are taken to be non-negative. The fixed-size array
  \<^verbatim>\<open>jobs[MAX_JOBS][MAX_OPERATIONS]\<close> is a function of the two indices. The sentinel
  \<open>-1\<close> in \<^verbatim>\<open>start_time\<close> marks an operation that is not scheduled.
\<close>

record Operation =
  machine :: int
  duration :: int
  start_time :: int

record JobShopProblem =
  num_jobs :: nat
  num_machines :: nat
  num_operations :: nat
  jobs :: "nat \<Rightarrow> nat \<Rightarrow> Operation"

text \<open>An entry of the execution log: job id and operation id (the wall-clock fields of
  the C struct are not modelled).\<close>

type_synonym log_entry = "nat \<times> nat"

definition MAX_LOG_ENTRIES :: nat where
  "MAX_LOG_ENTRIES = 10000"


text \<open>The range of a 32-bit \<^verbatim>\<open>int\<close> and its addition with wrap-around.\<close>

definition INT_MAX :: int where
  "INT_MAX = 2147483647"

definition INT_MIN :: int where
  "INT_MIN = - 2147483648"

definition int_add :: "int \<Rightarrow> int \<Rightarrow> int" where
  "int_add a b = (a + b + 2147483648) mod 4294967296 - 2147483648"

lemma int_add_in_range:
  "INT_MIN \<le> a + b \<Longrightarrow> a + b \<le> INT_MAX \<Longrightarrow> int_add a b = a + b"
  by (simp add: int_add_def INT_MIN_def INT_MAX_def)

text \<open>\<^verbatim>\<open>op_end = op_start + duration\<close>, as the scan of \<^verbatim>\<open>find_available_time\<close> computes
  it.\<close>

definition op_end :: "JobShopProblem \<Rightarrow> nat \<Rightarrow> nat \<Rightarrow> int" where
  "op_end p job op = int_add (start_time (jobs p job op)) (duration (jobs p job op))"

section \<open>find_available_time\<close>

text \<open>The overlap test of the inner loop:
  \<^verbatim>\<open>(start_time < op_end) && (end_time > op_start)\<close>.\<close>

definition overlap :: "int \<Rightarrow> int \<Rightarrow> int \<Rightarrow> int \<Rightarrow> bool" where
  "overlap start_t end_t op_start op_end' \<longleftrightarrow> start_t < op_end' \<and> end_t > op_start"

text \<open>One pass of the body of the two nested \<^verbatim>\<open>for\<close> loops, on the pair
  \<open>(can_schedule, earliest_possible)\<close>.\<close>

definition scan_op ::
  "JobShopProblem \<Rightarrow> int \<Rightarrow> int \<Rightarrow> int \<Rightarrow> nat \<Rightarrow> nat \<Rightarrow> bool \<times> int \<Rightarrow> bool \<times> int" where
  "scan_op p m start_t end_t job op acc =
     (if start_time (jobs p job op) \<noteq> -1 \<and> machine (jobs p job op) = m then
        (let op_start = start_time (jobs p job op);
             op_end' = int_add op_start (duration (jobs p job op))
         in if start_t < op_end' \<and> end_t > op_start
            then (False, if op_end' > snd acc then op_end' else snd acc)
            else acc)
      else acc)"

definition scan_machine :: "JobShopProblem \<Rightarrow> int \<Rightarrow> int \<Rightarrow> int \<Rightarrow> bool \<times> int" where
  "scan_machine p m start_t end_t =
     fold (\<lambda>job. fold (\<lambda>op. scan_op p m start_t end_t job op) [0..<num_operations p])
       [0..<num_jobs p] (True, start_t)"

text \<open>An operation that the scan finds in conflict with the slot \<open>[s, e)\<close>.\<close>

definition conflicts :: "JobShopProblem \<Rightarrow> int \<Rightarrow> int \<Rightarrow> int \<Rightarrow> nat \<Rightarrow> nat \<Rightarrow> bool" where
  "conflicts p m s e job op \<longleftrightarrow>
     start_time (jobs p job op) \<noteq> -1 \<and> machine (jobs p job op) = m \<and>
     overlap s e (start_time (jobs p job op)) (op_end p job op)"

text \<open>The index pairs the scan visits, in its order.\<close>

definition all_ops :: "JobShopProblem \<Rightarrow> (nat \<times> nat) list" where
  "all_ops p = List.product [0..<num_jobs p] [0..<num_operations p]"

text \<open>Committed operations on machine \<open>m\<close> that end after \<open>s\<close>: the ones a retry from
  \<open>s\<close> can still collide with.\<close>

definition later_ops :: "JobShopProblem \<Rightarrow> int \<Rightarrow> int \<Rightarrow> (nat \<times> nat) list" where
  "later_ops p m s =
     filter (\<lambda>(job, op). start_time (jobs p job op) \<noteq> -1 \<and> machine (jobs p job op) = m \<and>
                          s < op_end p job op) (all_ops p)"

lemma fold_product:
  "fold (\<lambda>x. fold (f x) ys) xs a = fold (\<lambda>(x, y). f x y) (List.product xs ys) a"
proof (induction xs arbitrary: a)
  case Nil
  then show ?case by simp
next
  case (Cons x xs)
  have "fold (\<lambda>(x, y). f x y) (map (Pair x) ys) a = fold (f x) ys a"
    by (simp add: fold_map comp_def)
  with Cons show ?case by simp
qed

lemma scan_machine_flat:
  "scan_machine p m s e = fold (\<lambda>(job, op). scan_op p m s e job op) (all_ops p) (True, s)"
  unfolding scan_machine_def all_ops_def by (rule fold_product)

lemma scan_op_cases:
  "scan_op p m s e job op acc =
     (if conflicts p m s e job op then (False, max (snd acc) (op_end p job op)) else acc)"
  by (auto simp: scan_op_def conflicts_def overlap_def op_end_def Let_def max_def)

lemma scan_fold_fst:
  "fst (fold (\<lambda>(job, op). scan_op p m s e job op) xs acc) \<longleftrightarrow>
     fst acc \<and> (\<forall>(job, op) \<in> set xs. \<not> conflicts p m s e job op)"
proof (induction xs arbitrary: acc)
  case Nil
  then show ?case by simp
next
  case (Cons x xs)
  obtain j' o' where x: "x = (j', o')" by (cases x)
  have step: "fst (scan_op p m s e j' o' acc) \<longleftrightarrow> fst acc \<and> \<not> conflicts p m s e j' o'"
    by (simp add: scan_op_cases)
  show ?case
    unfolding x using Cons.IH [of "scan_op p m s e j' o' acc"] step by auto
qed

lemma scan_fold_snd_ge:
  "snd acc \<le> snd (fold (\<lambda>(job, op). scan_op p m s e job op) xs acc)"
proof (induction xs arbitrary: acc)
  case Nil
  then show ?case by simp
next
  case (Cons x xs)
  obtain job op where x: "x = (job, op)" by (cases x)
  have "snd acc \<le> snd (scan_op p m s e job op acc)"
    by (simp add: scan_op_cases)
  also have "\<dots> \<le> snd (fold (\<lambda>(job, op). scan_op p m s e job op) xs (scan_op p m s e job op acc))"
    by (rule Cons.IH)
  finally show ?case by (simp add: x)
qed

lemma scan_fold_snd_upper:
  "(job, op) \<in> set xs \<Longrightarrow> conflicts p m s e job op \<Longrightarrow>
   op_end p job op \<le> snd (fold (\<lambda>(job, op). scan_op p m s e job op) xs acc)"
proof (induction xs arbitrary: acc)
  case Nil
  then show ?case by simp
next
  case (Cons x xs)
  obtain j' o' where x: "x = (j', o')" by (cases x)
  show ?case
  proof (cases "x = (job, op)")
    case True
    have "op_end p job op \<le> snd (scan_op p m s e job op acc)"
      using Cons.prems(2) by (simp add: scan_op_cases)
    also have "\<dots> \<le> snd (fold (\<lambda>(job, op). scan_op p m s e job op) xs (scan_op p m s e job op acc))"
      by (rule scan_fold_snd_ge)
    finally show ?thesis using True by simp
  next
    case False
    with Cons.prems have "(job, op) \<in> set xs" by simp
    from Cons.IH [OF this Cons.prems(2)] show ?thesis by (simp add: x)
  qed
qed

lemma scan_fold_snd_witness:
  "snd (fold (\<lambda>(job, op). scan_op p m s e job op) xs acc) = snd acc \<or>
   (\<exists>(job, op) \<in> set xs. conflicts p m s e job op \<and>
      snd (fold (\<lambda>(job, op). scan_op p m s e job op) xs acc) = op_end p job op)"
proof (induction xs arbitrary: acc)
  case Nil
  then show ?case by simp
next
  case (Cons x xs)
  obtain j' o' where x: "x = (j', o')" by (cases x)
  let ?acc' = "scan_op p m s e j' o' acc"
  from Cons.IH [of ?acc']
  consider (same) "snd (fold (\<lambda>(job, op). scan_op p m s e job op) xs ?acc') = snd ?acc'"
    | (later) "\<exists>(job, op) \<in> set xs. conflicts p m s e job op \<and>
        snd (fold (\<lambda>(job, op). scan_op p m s e job op) xs ?acc') = op_end p job op"
    by blast
  then show ?case
  proof cases
    case same
    have "snd ?acc' = snd acc \<or> (conflicts p m s e j' o' \<and> snd ?acc' = op_end p j' o')"
      by (auto simp: scan_op_cases max_def)
    with same show ?thesis
      unfolding x by auto
  next
    case later
    then show ?thesis unfolding x by auto
  qed
qed

lemma scan_machine_ok:
  "fst (scan_machine p m s e) \<longleftrightarrow> (\<forall>(job, op) \<in> set (all_ops p). \<not> conflicts p m s e job op)"
  by (simp add: scan_machine_flat scan_fold_fst)

lemma scan_machine_max:
  "(job, op) \<in> set (all_ops p) \<Longrightarrow> conflicts p m s e job op \<Longrightarrow>
   op_end p job op \<le> snd (scan_machine p m s e)"
  by (simp add: scan_machine_flat scan_fold_snd_upper)

lemma scan_machine_retry:
  assumes "\<not> fst (scan_machine p m s e)"
  shows "\<exists>(job, op) \<in> set (all_ops p). conflicts p m s e job op \<and>
           snd (scan_machine p m s e) = op_end p job op"
proof -
  from assms obtain j0 o0 where c0: "(j0, o0) \<in> set (all_ops p)" "conflicts p m s e j0 o0"
    by (auto simp: scan_machine_ok)
  then have "op_end p j0 o0 \<le> snd (scan_machine p m s e)"
    by (rule scan_machine_max)
  moreover have "s < op_end p j0 o0"
    using c0(2) by (simp add: conflicts_def overlap_def)
  ultimately have "snd (scan_machine p m s e) \<noteq> s" by simp
  with scan_fold_snd_witness [of p m s e "all_ops p" "(True, s)"]
  show ?thesis by (simp add: scan_machine_flat)
qed

lemma scan_machine_increases:
  "\<not> fst (scan_machine p m s e) \<Longrightarrow> s < snd (scan_machine p m s e)"
  by (drule scan_machine_retry) (auto simp: conflicts_def overlap_def)

lemma filter_length_less:
  assumes "\<And>x. x \<in> set xs \<Longrightarrow> P x \<Longrightarrow> Q x" and "x0 \<in> set xs" and "Q x0" and "\<not> P x0"
  shows "length (filter P xs) < length (filter Q xs)"
proof -
  have "filter P xs = filter P (filter Q xs)"
    using assms(1) by (auto intro: filter_cong)
  moreover have "length (filter P (filter Q xs)) < length (filter Q xs)"
    by (rule length_filter_less [of x0]) (use assms in auto)
  ultimately show ?thesis by simp
qed

lemma later_ops_decreases:
  assumes "\<not> fst (scan_machine p m s e)"
  shows "length (later_ops p m (snd (scan_machine p m s e))) < length (later_ops p m s)"
proof -
  let ?r = "snd (scan_machine p m s e)"
  from scan_machine_retry [OF assms] obtain j0 o0 where
    c0: "(j0, o0) \<in> set (all_ops p)" "conflicts p m s e j0 o0" "?r = op_end p j0 o0"
    by auto
  have lt: "s < ?r" using assms by (rule scan_machine_increases)
  show ?thesis
    unfolding later_ops_def
  proof (rule filter_length_less [of _ _ _ "(j0, o0)"])
    fix x
    assume "x \<in> set (all_ops p)"
      and "case x of (job, op) \<Rightarrow> start_time (jobs p job op) \<noteq> -1 \<and>
             machine (jobs p job op) = m \<and> ?r < op_end p job op"
    then show "case x of (job, op) \<Rightarrow> start_time (jobs p job op) \<noteq> -1 \<and>
             machine (jobs p job op) = m \<and> s < op_end p job op"
      using lt by auto
  next
    show "(j0, o0) \<in> set (all_ops p)" by (rule c0(1))
  next
    show "case (j0, o0) of (job, op) \<Rightarrow> start_time (jobs p job op) \<noteq> -1 \<and>
             machine (jobs p job op) = m \<and> s < op_end p job op"
      using c0(2) by (simp add: conflicts_def overlap_def)
  next
    show "\<not> (case (j0, o0) of (job, op) \<Rightarrow> start_time (jobs p job op) \<noteq> -1 \<and>
             machine (jobs p job op) = m \<and> ?r < op_end p job op)"
      using c0(3) by simp
  qed
qed

text \<open>The \<^verbatim>\<open>while (1)\<close> loop of \<^verbatim>\<open>find_available_time\<close>: scan, return the candidate
  when \<^verbatim>\<open>can_schedule\<close> is still set, otherwise retry from \<^verbatim>\<open>earliest_possible\<close>.
  The loop has no exit but the \<^verbatim>\<open>return\<close>; its termination is proved below.
  \<^verbatim>\<open>end_time = start_time + duration\<close> is the 32-bit sum.\<close>

function find_available_time :: "JobShopProblem \<Rightarrow> int \<Rightarrow> int \<Rightarrow> int \<Rightarrow> int" where
  "find_available_time p m d start_t =
     (if fst (scan_machine p m start_t (int_add start_t d)) then start_t
      else find_available_time p m d (snd (scan_machine p m start_t (int_add start_t d))))"
  by pat_completeness auto
termination
  by (relation "measure (\<lambda>(p, m, d, s). length (later_ops p m s))")
     (auto intro: later_ops_decreases)

declare find_available_time.simps [simp del]


lemma find_available_time_ge: "e \<le> find_available_time p m d e"
proof (induction p m d e rule: find_available_time.induct)
  case (1 p m d s)
  show ?case
  proof (cases "fst (scan_machine p m s (int_add s d))")
    case True
    then show ?thesis by (simp add: find_available_time.simps [of p m d s])
  next
    case False
    from scan_machine_increases [OF False] 1 [OF False] False
    show ?thesis by (simp add: find_available_time.simps [of p m d s])
  qed
qed

lemma find_available_time_free:
  "fst (scan_machine p m (find_available_time p m d e) (int_add (find_available_time p m d e) d))"
proof (induction p m d e rule: find_available_time.induct)
  case (1 p m d s)
  show ?case
  proof (cases "fst (scan_machine p m s (int_add s d))")
    case True
    then show ?thesis by (simp add: find_available_time.simps [of p m d s])
  next
    case False
    from 1 [OF False] False
    show ?thesis by (simp add: find_available_time.simps [of p m d s])
  qed
qed

lemma find_available_time_no_conflict:
  "job < num_jobs p \<Longrightarrow> op < num_operations p \<Longrightarrow>
   \<not> conflicts p m (find_available_time p m d e) (int_add (find_available_time p m d e) d) job op"
  using find_available_time_free [of p m d e]
  by (auto simp: scan_machine_ok all_ops_def)


text \<open>The value returned is the earliest start passed in or the end of a committed
  operation of that machine.\<close>

lemma find_available_time_result:
  "find_available_time p m d e = e \<or>
   (\<exists>job < num_jobs p. \<exists>op < num_operations p.
      start_time (jobs p job op) \<noteq> -1 \<and> machine (jobs p job op) = m \<and>
      find_available_time p m d e = op_end p job op)"
proof (induction p m d e rule: find_available_time.induct)
  case (1 p m d s)
  show ?case
  proof (cases "fst (scan_machine p m s (int_add s d))")
    case True
    then show ?thesis by (simp add: find_available_time.simps [of p m d s])
  next
    case False
    let ?r = "snd (scan_machine p m s (int_add s d))"
    have eq: "find_available_time p m d s = find_available_time p m d ?r"
      using False by (simp add: find_available_time.simps [of p m d s])
    from scan_machine_retry [OF False]
    have here: "\<exists>job < num_jobs p. \<exists>op < num_operations p.
      start_time (jobs p job op) \<noteq> -1 \<and> machine (jobs p job op) = m \<and> ?r = op_end p job op"
      by (fastforce simp: all_ops_def conflicts_def)
    from 1 [OF False] here show ?thesis
      unfolding eq by metis
  qed
qed

text \<open>The assignment \<^verbatim>\<open>problem.jobs[job][op].start_time = start_time\<close>.\<close>

definition set_start_time :: "JobShopProblem \<Rightarrow> nat \<Rightarrow> nat \<Rightarrow> int \<Rightarrow> JobShopProblem" where
  "set_start_time p job op s =
     p\<lparr>jobs := (jobs p)(job := (jobs p job)(op := (jobs p job op)\<lparr>start_time := s\<rparr>))\<rparr>"

text \<open>The instance of the end-to-end example: 2 jobs, 2 machines,
  job 0 = (machine 0, 3), (machine 1, 2); job 1 = (machine 1, 2), (machine 0, 4);
  as \<^verbatim>\<open>read_input_file\<close> leaves it, every operation unscheduled.\<close>

definition example_problem :: JobShopProblem where
  "example_problem =
     \<lparr>num_jobs = 2, num_machines = 2, num_operations = 2,
      jobs = (\<lambda>job op.
        if job = 0 then (if op = 0 then \<lparr>machine = 0, duration = 3, start_time = -1\<rparr>
                         else \<lparr>machine = 1, duration = 2, start_time = -1\<rparr>)
        else (if op = 0 then \<lparr>machine = 1, duration = 2, start_time = -1\<rparr>
              else \<lparr>machine = 0, duration = 4, start_time = -1\<rparr>))\<rparr>"

lemma no_overlap_disjoint:
  "\<not> overlap s e s' e' \<Longrightarrow> {s..<e} \<inter> {s'..<e'} = {}"
  by (auto simp: overlap_def)

lemma set_start_time_simps:
  "num_jobs (set_start_time p job op s) = num_jobs p"
  "num_operations (set_start_time p job op s) = num_operations p"
  "num_machines (set_start_time p job op s) = num_machines p"
  "start_time (jobs (set_start_time p job op s) job op) = s"
  "machine (jobs (set_start_time p job op s) j k) = machine (jobs p j k)"
  "duration (jobs (set_start_time p job op s) j k) = duration (jobs p j k)"
  "(j, k) \<noteq> (job, op) \<Longrightarrow> jobs (set_start_time p job op s) j k = jobs p j k"
  by (auto simp: set_start_time_def)

text \<open>A problem with one operation, committed on machine 0 at \<open>[0, 10)\<close>, and a problem
  with two operations on machine 0, the first committed at \<open>[0, 2147483640)\<close>, the second
  of duration 10 and not committed.\<close>

definition committed_problem :: JobShopProblem where
  "committed_problem =
     \<lparr>num_jobs = 1, num_machines = 1, num_operations = 1,
      jobs = (\<lambda>job op. \<lparr>machine = 0, duration = 10, start_time = 0\<rparr>)\<rparr>"

definition long_problem :: JobShopProblem where
  "long_problem =
     \<lparr>num_jobs = 1, num_machines = 1, num_operations = 2,
      jobs = (\<lambda>job op. if op = 0 then \<lparr>machine = 0, duration = 2147483640, start_time = 0\<rparr>
                        else \<lparr>machine = 0, duration = 10, start_time = -1\<rparr>)\<rparr>"

section \<open>Specified properties of find_available_time\<close>

text \<open>
  C2, as the code has it. For every machine, every duration \<open>d \<ge> 0\<close> and earliest start
  \<open>e \<ge> 0\<close> and every state of the committed operations such that no sum overflows
  (\<open>e + d\<close> and, for every committed operation of that machine, its end and its end plus
  \<open>d\<close> are in the range of \<^verbatim>\<open>int\<close>), \<open>find_available_time\<close> returns a value \<open>r \<ge> e\<close>; the
  slot \<open>[r, r + d)\<close> passes the overlap test against every committed operation of that
  machine, so the half-open intervals are disjoint; and once an operation of that machine
  and duration is committed at \<open>r\<close>, a second call with the same parameters returns a slot
  that does not overlap the committed one.
\<close>

theorem find_available_time_slot:
  assumes "0 \<le> d" and "0 \<le> e" and "e + d \<le> INT_MAX"
    and "\<forall>job < num_jobs p. \<forall>op < num_operations p.
           start_time (jobs p job op) \<noteq> -1 \<and> machine (jobs p job op) = m \<longrightarrow>
             INT_MIN \<le> start_time (jobs p job op) + duration (jobs p job op) \<and>
             start_time (jobs p job op) + duration (jobs p job op) + d \<le> INT_MAX"
  shows "e \<le> find_available_time p m d e \<and>
    (\<forall>job < num_jobs p. \<forall>op < num_operations p.
       start_time (jobs p job op) \<noteq> -1 \<and> machine (jobs p job op) = m \<longrightarrow>
         \<not> overlap (find_available_time p m d e) (find_available_time p m d e + d)
              (start_time (jobs p job op))
              (start_time (jobs p job op) + duration (jobs p job op)) \<and>
         {find_available_time p m d e ..< find_available_time p m d e + d} \<inter>
           {start_time (jobs p job op) ..<
            start_time (jobs p job op) + duration (jobs p job op)} = {}) \<and>
    (\<forall>job < num_jobs p. \<forall>op < num_operations p.
       machine (jobs p job op) = m \<and> duration (jobs p job op) = d \<longrightarrow>
         \<not> overlap
              (find_available_time (set_start_time p job op (find_available_time p m d e)) m d e)
              (find_available_time (set_start_time p job op (find_available_time p m d e)) m d e + d)
              (find_available_time p m d e) (find_available_time p m d e + d) \<and>
         {find_available_time (set_start_time p job op (find_available_time p m d e)) m d e ..<
          find_available_time (set_start_time p job op (find_available_time p m d e)) m d e + d} \<inter>
           {find_available_time p m d e ..< find_available_time p m d e + d} = {})"
proof -
  let ?r = "find_available_time p m d e"
  have ends: "op_end p job op = start_time (jobs p job op) + duration (jobs p job op) \<and>
      op_end p job op + d \<le> INT_MAX"
    if "job < num_jobs p" "op < num_operations p"
      "start_time (jobs p job op) \<noteq> -1" "machine (jobs p job op) = m" for job op
  proof -
    from assms(4) that
    have lo: "INT_MIN \<le> start_time (jobs p job op) + duration (jobs p job op)"
      and hi: "start_time (jobs p job op) + duration (jobs p job op) + d \<le> INT_MAX"
      by blast+
    from hi assms(1) have "start_time (jobs p job op) + duration (jobs p job op) \<le> INT_MAX"
      by simp
    with lo hi show ?thesis by (simp add: op_end_def int_add_in_range)
  qed
  have ge: "e \<le> ?r" by (rule find_available_time_ge)
  have hi: "?r + d \<le> INT_MAX"
  proof -
    from find_available_time_result [of p m d e]
    consider "?r = e"
      | job op where "job < num_jobs p" "op < num_operations p"
          "start_time (jobs p job op) \<noteq> -1" "machine (jobs p job op) = m"
          "?r = op_end p job op"
      by blast
    then show ?thesis
    proof cases
      case 1
      with assms(3) show ?thesis by simp
    next
      case 2
      from ends [OF 2(1-4)] 2(5) show ?thesis by simp
    qed
  qed
  have add: "int_add ?r d = ?r + d"
    using hi ge assms(1,2) by (intro int_add_in_range) (simp_all add: INT_MIN_def)
  have part2: "\<not> overlap ?r (?r + d) (start_time (jobs p job op))
        (start_time (jobs p job op) + duration (jobs p job op))"
    if r: "job < num_jobs p" "op < num_operations p"
      and c: "start_time (jobs p job op) \<noteq> -1 \<and> machine (jobs p job op) = m" for job op
    using find_available_time_no_conflict [OF r, of m d e] c ends [OF r] add
    by (simp add: conflicts_def)
  have part3: "\<not> overlap (find_available_time (set_start_time p job op ?r) m d e)
        (find_available_time (set_start_time p job op ?r) m d e + d) ?r (?r + d)"
    if r: "job < num_jobs p" "op < num_operations p"
      and c: "machine (jobs p job op) = m \<and> duration (jobs p job op) = d" for job op
  proof -
    let ?p' = "set_start_time p job op ?r"
    let ?r' = "find_available_time ?p' m d e"
    have r': "job < num_jobs ?p'" "op < num_operations ?p'"
      using r by (simp_all add: set_start_time_simps)
    have committed: "start_time (jobs ?p' job op) \<noteq> -1"
      using ge assms(2) by (simp add: set_start_time_simps)
    have end': "op_end ?p' job op = ?r + d"
      using c add by (simp add: op_end_def set_start_time_simps)
    from find_available_time_no_conflict [OF r', of m d e] committed c end'
    have test: "\<not> overlap ?r' (int_add ?r' d) ?r (?r + d)"
      by (simp add: conflicts_def set_start_time_simps)
    have ge': "e \<le> ?r'" by (rule find_available_time_ge)
    show ?thesis
    proof (cases "?r' + d \<le> INT_MAX")
      case True
      then have "int_add ?r' d = ?r' + d"
        using ge' assms(1,2) by (intro int_add_in_range) (simp_all add: INT_MIN_def)
      with test show ?thesis by simp
    next
      case False
      from find_available_time_result [of ?p' m d e]
      consider "?r' = e"
        | job' op' where "job' < num_jobs ?p'" "op' < num_operations ?p'"
            "start_time (jobs ?p' job' op') \<noteq> -1" "machine (jobs ?p' job' op') = m"
            "?r' = op_end ?p' job' op'"
        by blast
      then have "?r + d \<le> ?r'"
      proof cases
        case 1
        with False assms(3) show ?thesis by simp
      next
        case 2
        show ?thesis
        proof (cases "(job', op') = (job, op)")
          case True
          with 2(5) end' show ?thesis by simp
        next
          case ne: False
          then have same: "jobs ?p' job' op' = jobs p job' op'"
            by (rule set_start_time_simps)
          with 2 have "op_end ?p' job' op' = op_end p job' op'"
            by (simp add: op_end_def)
          moreover from 2 same have "op_end p job' op' + d \<le> INT_MAX"
            by (intro ends [THEN conjunct2]) (simp_all add: set_start_time_simps)
          ultimately show ?thesis using 2(5) False by simp
        qed
      qed
      then show ?thesis by (simp add: overlap_def)
    qed
  qed
  show ?thesis
  proof (intro conjI allI impI)
    show "e \<le> ?r" by (rule ge)
  next
    fix job op
    assume "job < num_jobs p" "op < num_operations p"
      "start_time (jobs p job op) \<noteq> -1 \<and> machine (jobs p job op) = m"
    then show no: "\<not> overlap ?r (?r + d) (start_time (jobs p job op))
        (start_time (jobs p job op) + duration (jobs p job op))"
      by (rule part2)
    then show "{?r ..< ?r + d} \<inter> {start_time (jobs p job op) ..<
        start_time (jobs p job op) + duration (jobs p job op)} = {}"
      by (rule no_overlap_disjoint)
  next
    fix job op
    assume "job < num_jobs p" "op < num_operations p"
      "machine (jobs p job op) = m \<and> duration (jobs p job op) = d"
    then show no: "\<not> overlap (find_available_time (set_start_time p job op ?r) m d e)
        (find_available_time (set_start_time p job op ?r) m d e + d) ?r (?r + d)"
      by (rule part3)
    then show "{find_available_time (set_start_time p job op ?r) m d e ..<
        find_available_time (set_start_time p job op ?r) m d e + d} \<inter> {?r ..< ?r + d} = {}"
      by (rule no_overlap_disjoint)
  qed
qed

theorem find_available_time_slot_witness:
  "(0::int) \<le> 4 \<and> (0::int) \<le> 2 \<and> (2::int) + 4 \<le> INT_MAX \<and>
   start_time (jobs (set_start_time example_problem 0 0 0) 0 0) \<noteq> -1 \<and>
   machine (jobs (set_start_time example_problem 0 0 0) 0 0) = 0 \<and>
   INT_MIN \<le> start_time (jobs (set_start_time example_problem 0 0 0) 0 0) +
     duration (jobs (set_start_time example_problem 0 0 0) 0 0) \<and>
   start_time (jobs (set_start_time example_problem 0 0 0) 0 0) +
     duration (jobs (set_start_time example_problem 0 0 0) 0 0) + 4 \<le> INT_MAX \<and>
   machine (jobs (set_start_time example_problem 0 0 0) 1 1) = 0 \<and>
   duration (jobs (set_start_time example_problem 0 0 0) 1 1) = 4 \<and>
   find_available_time (set_start_time example_problem 0 0 0) 0 4 2 = 3 \<and>
   2 \<le> find_available_time (set_start_time example_problem 0 0 0) 0 4 2 \<and>
   \<not> overlap (find_available_time (set_start_time example_problem 0 0 0) 0 4 2)
        (find_available_time (set_start_time example_problem 0 0 0) 0 4 2 + 4) 0 3 \<and>
   \<not> overlap
        (find_available_time (set_start_time (set_start_time example_problem 0 0 0) 1 1
           (find_available_time (set_start_time example_problem 0 0 0) 0 4 2)) 0 4 2)
        (find_available_time (set_start_time (set_start_time example_problem 0 0 0) 1 1
           (find_available_time (set_start_time example_problem 0 0 0) 0 4 2)) 0 4 2 + 4)
        (find_available_time (set_start_time example_problem 0 0 0) 0 4 2)
        (find_available_time (set_start_time example_problem 0 0 0) 0 4 2 + 4)"
proof -
  let ?p = "set_start_time example_problem 0 0 0"
  have h: "(0::int) \<le> 4" "(0::int) \<le> 2" "(2::int) + 4 \<le> INT_MAX"
    by (simp_all add: INT_MAX_def)
  have n: "(0::nat) < num_jobs ?p" "(0::nat) < num_operations ?p"
    "(1::nat) < num_jobs ?p" "(1::nat) < num_operations ?p"
    by (simp_all add: set_start_time_def example_problem_def)
  have f: "start_time (jobs ?p 0 0) \<noteq> -1" "machine (jobs ?p 0 0) = 0"
    "machine (jobs ?p 1 1) = 0" "duration (jobs ?p 1 1) = 4"
    "start_time (jobs ?p 0 0) = 0" "duration (jobs ?p 0 0) = 3"
    by (simp_all add: set_start_time_def example_problem_def)
  have g: "\<forall>job < num_jobs ?p. \<forall>op < num_operations ?p.
           start_time (jobs ?p job op) \<noteq> -1 \<and> machine (jobs ?p job op) = 0 \<longrightarrow>
             INT_MIN \<le> start_time (jobs ?p job op) + duration (jobs ?p job op) \<and>
             start_time (jobs ?p job op) + duration (jobs ?p job op) + 4 \<le> INT_MAX"
    by (simp add: set_start_time_def example_problem_def INT_MIN_def INT_MAX_def)
  have v: "find_available_time ?p 0 4 2 = 3"
    by (simp add: find_available_time.simps scan_machine_def scan_op_def set_start_time_def
          example_problem_def upt_rec int_add_def)
  from find_available_time_slot [OF h g] n f
  have "2 \<le> find_available_time ?p 0 4 2"
    and "\<not> overlap (find_available_time ?p 0 4 2) (find_available_time ?p 0 4 2 + 4) 0 3"
    and "\<not> overlap
        (find_available_time (set_start_time ?p 1 1 (find_available_time ?p 0 4 2)) 0 4 2)
        (find_available_time (set_start_time ?p 1 1 (find_available_time ?p 0 4 2)) 0 4 2 + 4)
        (find_available_time ?p 0 4 2) (find_available_time ?p 0 4 2 + 4)"
    by (metis add.left_neutral add.commute)+
  with f v h show ?thesis by (simp add: INT_MIN_def INT_MAX_def)
qed

text \<open>
  C2 as stated fails when a sum overflows. With the operation \<open>[0, 10)\<close> committed on
  machine 0, duration 2147483647 and earliest start 5, \<^verbatim>\<open>end_time\<close> wraps around to a
  negative value, the overlap test finds no conflict, and the slot returned starts at 5,
  inside the committed operation. With the operation \<open>[0, 2147483640)\<close> committed on
  machine 0, duration 10 and earliest start 5, the slot returned starts at 2147483640;
  once the second operation is committed there, its end wraps around, and a second call
  with the same parameters returns the same slot again.
\<close>

theorem find_available_time_overflow_counterexample:
  "(0::int) \<le> 2147483647 \<and> (0::int) \<le> 5 \<and>
   start_time (jobs committed_problem 0 0) = 0 \<and>
   duration (jobs committed_problem 0 0) = 10 \<and>
   machine (jobs committed_problem 0 0) = 0 \<and>
   find_available_time committed_problem 0 2147483647 5 = 5 \<and>
   overlap 5 (5 + 2147483647) 0 (0 + 10) \<and>
   (5::int) \<in> {5 ..< 5 + 2147483647} \<inter> {0 ..< 0 + 10} \<and>
   (0::int) \<le> 10 \<and>
   start_time (jobs long_problem 0 0) = 0 \<and> duration (jobs long_problem 0 0) = 2147483640 \<and>
   machine (jobs long_problem 0 0) = 0 \<and> start_time (jobs long_problem 0 1) = -1 \<and>
   machine (jobs long_problem 0 1) = 0 \<and> duration (jobs long_problem 0 1) = 10 \<and>
   find_available_time long_problem 0 10 5 = 2147483640 \<and>
   find_available_time (set_start_time long_problem 0 1 2147483640) 0 10 5 = 2147483640 \<and>
   overlap 2147483640 (2147483640 + 10) 2147483640 (2147483640 + 10)"
  by (simp add: find_available_time.simps scan_machine_def scan_op_def committed_problem_def
        long_problem_def set_start_time_def upt_rec int_add_def overlap_def)



section \<open>Valid problems, valid schedules and the scheduling invariant\<close>

text \<open>\<^verbatim>\<open>total_ops = num_jobs * num_operations\<close>, as both schedulers compute it.\<close>

definition total_ops :: "JobShopProblem \<Rightarrow> nat" where
  "total_ops p = num_jobs p * num_operations p"

text \<open>
  A valid problem: every machine id in range, every duration non-negative, at least one
  operation. \<open>durations_nonneg\<close> is the part of it the schedulers' invariant needs.
\<close>

definition valid_problem :: "JobShopProblem \<Rightarrow> bool" where
  "valid_problem p \<longleftrightarrow>
     (\<forall>job < num_jobs p. \<forall>op < num_operations p.
        0 \<le> machine (jobs p job op) \<and> machine (jobs p job op) < int (num_machines p) \<and>
        0 \<le> duration (jobs p job op)) \<and>
     0 < total_ops p"


text \<open>
  The sum of all durations, and the problems in which it fits into an \<^verbatim>\<open>int\<close>: in their
  runs no sum of a start time and a duration overflows, since every end time is at most
  the sum of the durations scheduled so far (\<open>sched_dur\<close>).
\<close>

definition total_duration :: "JobShopProblem \<Rightarrow> int" where
  "total_duration p =
     (\<Sum>job < num_jobs p. \<Sum>op < num_operations p. duration (jobs p job op))"



text \<open>
  A valid schedule: every start time is non-negative, each operation of a job ends before
  the next one of that job starts, and two operations on the same machine neither pass
  the overlap test of \<open>find_available_time\<close> nor share a point of their half-open
  intervals.
\<close>

definition valid_schedule :: "JobShopProblem \<Rightarrow> bool" where
  "valid_schedule p \<longleftrightarrow>
     (\<forall>job < num_jobs p. \<forall>op < num_operations p. 0 \<le> start_time (jobs p job op)) \<and>
     (\<forall>job < num_jobs p. \<forall>op. Suc op < num_operations p \<longrightarrow>
        start_time (jobs p job op) + duration (jobs p job op) \<le> start_time (jobs p job (Suc op))) \<and>
     (\<forall>job < num_jobs p. \<forall>op < num_operations p. \<forall>job' < num_jobs p. \<forall>op' < num_operations p.
        (job, op) \<noteq> (job', op') \<and> machine (jobs p job op) = machine (jobs p job' op') \<longrightarrow>
        \<not> overlap (start_time (jobs p job op)) (start_time (jobs p job op) + duration (jobs p job op))
             (start_time (jobs p job' op')) (start_time (jobs p job' op') + duration (jobs p job' op')) \<and>
        {start_time (jobs p job op) ..< start_time (jobs p job op) + duration (jobs p job op)} \<inter>
        {start_time (jobs p job' op') ..< start_time (jobs p job' op') + duration (jobs p job' op')} = {})"







subsection \<open>The bound on the end times\<close>










section \<open>The sequential scheduler\<close>

text \<open>
  The state of \<^verbatim>\<open>schedule_jobs_sequential\<close>: the problem with the start times assigned so
  far, the local arrays \<^verbatim>\<open>scheduled_ops\<close> and \<^verbatim>\<open>earliest_starts\<close>, the counter
  \<^verbatim>\<open>scheduled_count\<close>, and the log (\<^verbatim>\<open>log_entries\<close> with \<^verbatim>\<open>log_count\<close> as its length),
  which the C struct keeps inside the problem and the model keeps beside it.
\<close>

record sched_state =
  problem :: JobShopProblem
  scheduled_ops :: "nat \<Rightarrow> nat"
  earliest_starts :: "nat \<Rightarrow> int"

record seq_state = sched_state +
  scheduled_count :: nat
  log_entries :: "log_entry list"

text \<open>Appending to a log of fixed capacity: the entry is dropped when the log is full.\<close>

definition log_append :: "log_entry list \<Rightarrow> log_entry \<Rightarrow> log_entry list" where
  "log_append l x = (if length l < MAX_LOG_ENTRIES then l @ [x] else l)"

text \<open>
  The selection scan of the main loop, on the pair \<open>(earliest_job, earliest_time)\<close>; the
  C value \<open>-1\<close> of \<^verbatim>\<open>earliest_job\<close> (no job found) is \<open>None\<close>. The scan starts from
  \<open>(-1, 999999)\<close> and compares with a strict \<open><\<close>.
\<close>

definition select_step :: "'a sched_state_scheme \<Rightarrow> nat \<Rightarrow> nat option \<times> int \<Rightarrow> nat option \<times> int" where
  "select_step st job acc =
     (if scheduled_ops st job < num_operations (problem st) then
        (if earliest_starts st job < snd acc then (Some job, earliest_starts st job) else acc)
      else acc)"

definition select_job :: "'a sched_state_scheme \<Rightarrow> nat option \<times> int" where
  "select_job st = fold (select_step st) [0..<num_jobs (problem st)] (None, 999999)"

text \<open>The rest of the loop body, once \<^verbatim>\<open>earliest_job\<close> is known.\<close>

definition schedule_next :: "seq_state \<Rightarrow> nat \<Rightarrow> seq_state" where
  "schedule_next st earliest_job =
     (let p = problem st;
          op = scheduled_ops st earliest_job;
          m = machine (jobs p earliest_job op);
          d = duration (jobs p earliest_job op);
          job_earliest_start = earliest_starts st earliest_job;
          s = find_available_time p m d job_earliest_start;
          so' = (scheduled_ops st)(earliest_job := op + 1)
      in st\<lparr>problem := set_start_time p earliest_job op s,
            scheduled_ops := so',
            earliest_starts :=
              (if so' earliest_job < num_operations p
               then (earliest_starts st)(earliest_job := int_add s d) else earliest_starts st),
            scheduled_count := scheduled_count st + 1,
            log_entries := log_append (log_entries st) (earliest_job, op)\<rparr>)"

lemma schedule_next_simps:
  "num_jobs (problem (schedule_next st j)) = num_jobs (problem st)"
  "num_operations (problem (schedule_next st j)) = num_operations (problem st)"
  "total_ops (problem (schedule_next st j)) = total_ops (problem st)"
  "scheduled_count (schedule_next st j) = scheduled_count st + 1"
  by (simp_all add: schedule_next_def Let_def set_start_time_simps total_ops_def)

text \<open>The \<^verbatim>\<open>while (scheduled_count < total_ops)\<close> loop, with its \<^verbatim>\<open>break\<close> when no job
  was found.\<close>

function schedule_loop :: "seq_state \<Rightarrow> seq_state" where
  "schedule_loop st =
     (if scheduled_count st < total_ops (problem st) then
        (case fst (select_job st) of
           None \<Rightarrow> st
         | Some earliest_job \<Rightarrow> schedule_loop (schedule_next st earliest_job))
      else st)"
  by pat_completeness auto
termination
  by (relation "measure (\<lambda>st. total_ops (problem st) - scheduled_count st)")
     (auto simp: schedule_next_simps)

declare schedule_loop.simps [simp del]

definition seq_init :: "JobShopProblem \<Rightarrow> log_entry list \<Rightarrow> seq_state" where
  "seq_init p l =
     \<lparr>problem = p, scheduled_ops = (\<lambda>_. 0), earliest_starts = (\<lambda>_. 0),
      scheduled_count = 0, log_entries = l\<rparr>"

definition schedule_jobs_sequential :: "JobShopProblem \<Rightarrow> log_entry list \<Rightarrow> seq_state" where
  "schedule_jobs_sequential p l = schedule_loop (seq_init p l)"

text \<open>
  \<^verbatim>\<open>write_output_file\<close> of the sequential program: the makespan, computed over every
  operation (scheduled or not) from 0, and one row of \<open>(start_time, duration)\<close> per job.
\<close>

definition makespan_step :: "JobShopProblem \<Rightarrow> nat \<Rightarrow> nat \<Rightarrow> int \<Rightarrow> int" where
  "makespan_step p job op makespan =
     (let end_time = int_add (start_time (jobs p job op)) (duration (jobs p job op))
      in if end_time > makespan then end_time else makespan)"

definition makespan :: "JobShopProblem \<Rightarrow> int" where
  "makespan p =
     fold (\<lambda>job. fold (\<lambda>op. makespan_step p job op) [0..<num_operations p]) [0..<num_jobs p] 0"

definition output_rows :: "JobShopProblem \<Rightarrow> (int \<times> int) list list" where
  "output_rows p =
     map (\<lambda>job. map (\<lambda>op. (start_time (jobs p job op), duration (jobs p job op)))
                  [0..<num_operations p]) [0..<num_jobs p]"

definition write_output_file :: "JobShopProblem \<Rightarrow> int \<times> (int \<times> int) list list" where
  "write_output_file p = (makespan p, output_rows p)"

text \<open>
  \<^verbatim>\<open>main\<close> of the sequential program after the input has been read: ten repetitions,
  each resetting every start time to \<open>-1\<close> and, except for the last, the log; then
  the output file is written from the problem as the last repetition left it. The result
  of the scheduler is not inspected.
\<close>

definition reset_start_times :: "JobShopProblem \<Rightarrow> JobShopProblem" where
  "reset_start_times p =
     p\<lparr>jobs := (\<lambda>job op. if job < num_jobs p \<and> op < num_operations p
                           then (jobs p job op)\<lparr>start_time := -1\<rparr> else jobs p job op)\<rparr>"

definition num_repetitions :: nat where
  "num_repetitions = 10"

definition repetition_sequential ::
  "nat \<Rightarrow> JobShopProblem \<times> log_entry list \<Rightarrow> JobShopProblem \<times> log_entry list" where
  "repetition_sequential i pl =
     (let p = reset_start_times (fst pl);
          l = (if i < num_repetitions - 1 then [] else snd pl);
          st = schedule_jobs_sequential p l
      in (problem st, log_entries st))"

definition main_sequential :: "JobShopProblem \<Rightarrow> int \<times> (int \<times> int) list list" where
  "main_sequential p =
     write_output_file (fst (fold repetition_sequential [0..<num_repetitions] (p, [])))"

section \<open>Properties of the sequential scheduler\<close>

lemma select_fold:
  fixes st :: "'a sched_state_scheme"
  defines "no \<equiv> num_operations (problem st)"
  defines "so \<equiv> scheduled_ops st" and "es \<equiv> earliest_starts st"
  shows "(fst (fold (select_step st) [0..<n] (None, 999999)) = None \<longrightarrow>
            snd (fold (select_step st) [0..<n] (None, 999999)) = 999999 \<and>
            (\<forall>k < n. so k < no \<longrightarrow> 999999 \<le> es k)) \<and>
         (\<forall>j. fst (fold (select_step st) [0..<n] (None, 999999)) = Some j \<longrightarrow>
            j < n \<and> so j < no \<and> snd (fold (select_step st) [0..<n] (None, 999999)) = es j \<and>
            es j < 999999 \<and>
            (\<forall>k < n. so k < no \<longrightarrow> es j \<le> es k \<and> (es k = es j \<longrightarrow> j \<le> k)))"
proof (induction n)
  case 0
  then show ?case by simp
next
  case (Suc n)
  let ?r = "fold (select_step st) [0..<n] (None, 999999)"
  have step: "fold (select_step st) [0..<Suc n] (None, 999999) = select_step st n ?r"
    by simp
  show ?case
  proof (cases "so n < no \<and> es n < snd ?r")
    case True
    then have res: "select_step st n ?r = (Some n, es n)"
      by (simp add: select_step_def so_def es_def no_def)
    have bound: "snd ?r \<le> 999999"
      using Suc by (cases "fst ?r") auto
    have others: "\<forall>k < n. so k < no \<longrightarrow> snd ?r \<le> es k"
      using Suc by (cases "fst ?r") auto
    show ?thesis
      unfolding step res using True bound others
      by (auto simp: less_Suc_eq)
  next
    case False
    then have res: "select_step st n ?r = ?r"
      by (auto simp: select_step_def so_def es_def no_def)
    show ?thesis
    proof (cases "fst ?r")
      case None
      with Suc False show ?thesis
        unfolding step res by (auto simp: less_Suc_eq)
    next
      case (Some j)
      with Suc False show ?thesis
        unfolding step res by (auto simp: less_Suc_eq)
    qed
  qed
qed



lemma select_job_Some:
  assumes "fst (select_job st) = Some j"
  shows "j < num_jobs (problem st)" and "scheduled_ops st j < num_operations (problem st)"
    and "earliest_starts st j < 999999"
    and "\<And>k. k < num_jobs (problem st) \<Longrightarrow> scheduled_ops st k < num_operations (problem st) \<Longrightarrow>
           earliest_starts st j \<le> earliest_starts st k \<and>
           (earliest_starts st k = earliest_starts st j \<longrightarrow> j \<le> k)"
  using select_fold [of st "num_jobs (problem st)"] assms
  unfolding select_job_def by blast+







lemma schedule_next_fields:
  "problem (schedule_next st j) =
     set_start_time (problem st) j (scheduled_ops st j)
       (find_available_time (problem st) (machine (jobs (problem st) j (scheduled_ops st j)))
          (duration (jobs (problem st) j (scheduled_ops st j))) (earliest_starts st j))"
  "scheduled_ops (schedule_next st j) = (scheduled_ops st)(j := Suc (scheduled_ops st j))"
  "earliest_starts (schedule_next st j) =
     (if Suc (scheduled_ops st j) < num_operations (problem st)
      then (earliest_starts st)(j := int_add
        (find_available_time (problem st) (machine (jobs (problem st) j (scheduled_ops st j)))
          (duration (jobs (problem st) j (scheduled_ops st j))) (earliest_starts st j))
        (duration (jobs (problem st) j (scheduled_ops st j))))
      else earliest_starts st)"
  "log_entries (schedule_next st j) = log_append (log_entries st) (j, scheduled_ops st j)"
  by (simp_all add: schedule_next_def Let_def)









lemma schedule_loop_rule:
  assumes "P st"
    and "\<And>st j. P st \<Longrightarrow> scheduled_count st < total_ops (problem st) \<Longrightarrow>
           fst (select_job st) = Some j \<Longrightarrow> P (schedule_next st j)"
  shows "P (schedule_loop st) \<and>
         (scheduled_count (schedule_loop st) < total_ops (problem (schedule_loop st)) \<longrightarrow>
            fst (select_job (schedule_loop st)) = None)"
  using assms(1)
proof (induction st rule: schedule_loop.induct)
  case (1 st)
  show ?case
  proof (cases "scheduled_count st < total_ops (problem st)")
    case False
    with "1.prems" show ?thesis by (simp add: schedule_loop.simps [of st])
  next
    case True
    show ?thesis
    proof (cases "fst (select_job st)")
      case None
      with True "1.prems" show ?thesis by (simp add: schedule_loop.simps [of st])
    next
      case (Some j)
      from assms(2) [OF "1.prems" True Some] have "P (schedule_next st j)" .
      from "1.IH" [OF True Some this] True Some
      show ?thesis by (simp add: schedule_loop.simps [of st])
    qed
  qed
qed







lemma reset_set_start_time:
  "j < num_jobs p \<Longrightarrow> k < num_operations p \<Longrightarrow>
   reset_start_times (set_start_time p j k s) = reset_start_times p"
  by (auto simp: reset_start_times_def set_start_time_def fun_eq_iff)

lemma reset_start_times_idem:
  "reset_start_times (reset_start_times p) = reset_start_times p"
  by (auto simp: reset_start_times_def fun_eq_iff)

lemma reset_schedule_loop:
  "reset_start_times (problem (schedule_loop st)) = reset_start_times (problem st)"
proof -
  have "reset_start_times (problem (schedule_loop st)) = reset_start_times (problem st) \<and>
      (scheduled_count (schedule_loop st) < total_ops (problem (schedule_loop st)) \<longrightarrow>
         fst (select_job (schedule_loop st)) = None)"
  proof (rule schedule_loop_rule [where P = "\<lambda>s. reset_start_times (problem s) = reset_start_times (problem st)"])
    show "reset_start_times (problem st) = reset_start_times (problem st)" ..
  next
    fix s :: seq_state and j
    assume a: "reset_start_times (problem s) = reset_start_times (problem st)"
      and "fst (select_job s) = Some j"
    note sel = select_job_Some [OF this(2)]
    show "reset_start_times (problem (schedule_next s j)) = reset_start_times (problem st)"
      unfolding schedule_next_fields using sel(1,2) a by (simp add: reset_set_start_time)
  qed
  then show ?thesis by simp
qed

lemma schedule_jobs_sequential_reset:
  "reset_start_times (problem (schedule_jobs_sequential p l)) = reset_start_times p"
  by (simp add: schedule_jobs_sequential_def reset_schedule_loop seq_init_def)



subsection \<open>The repetitions of main\<close>

lemma select_job_log:
  "select_job (st\<lparr>log_entries := l\<rparr>) = select_job st"
proof -
  have "select_step (st\<lparr>log_entries := l\<rparr>) = select_step st"
    by (simp add: fun_eq_iff select_step_def)
  then show ?thesis by (simp add: select_job_def)
qed

lemma schedule_next_log:
  "schedule_next (st\<lparr>log_entries := l\<rparr>) j =
     (schedule_next st j)\<lparr>log_entries := log_append l (j, scheduled_ops st j)\<rparr>"
  by (simp add: schedule_next_def Let_def)

lemma schedule_loop_log:
  "\<exists>l'. schedule_loop (st\<lparr>log_entries := l\<rparr>) = (schedule_loop st)\<lparr>log_entries := l'\<rparr>"
proof (induction st arbitrary: l rule: schedule_loop.induct)
  case (1 st)
  have L: "schedule_loop (st\<lparr>log_entries := l\<rparr>) =
      (if scheduled_count st < total_ops (problem st) then
         (case fst (select_job st) of
            None \<Rightarrow> st\<lparr>log_entries := l\<rparr>
          | Some j \<Rightarrow> schedule_loop
              ((schedule_next st j)\<lparr>log_entries := log_append l (j, scheduled_ops st j)\<rparr>))
       else st\<lparr>log_entries := l\<rparr>)"
    by (subst schedule_loop.simps)
       (simp add: select_job_log schedule_next_log split: option.split)
  show ?case
  proof (cases "scheduled_count st < total_ops (problem st)")
    case False
    then have "schedule_loop (st\<lparr>log_entries := l\<rparr>) = st\<lparr>log_entries := l\<rparr>"
      and "schedule_loop st = st"
      by (simp_all add: L schedule_loop.simps [of st])
    then show ?thesis by auto
  next
    case True
    show ?thesis
    proof (cases "fst (select_job st)")
      case None
      with True have "schedule_loop (st\<lparr>log_entries := l\<rparr>) = st\<lparr>log_entries := l\<rparr>"
        and "schedule_loop st = st"
        by (simp_all add: L schedule_loop.simps [of st])
      then show ?thesis by auto
    next
      case (Some j)
      with True have "schedule_loop (st\<lparr>log_entries := l\<rparr>) =
          schedule_loop ((schedule_next st j)\<lparr>log_entries := log_append l (j, scheduled_ops st j)\<rparr>)"
        and "schedule_loop st = schedule_loop (schedule_next st j)"
        by (simp_all add: L schedule_loop.simps [of st])
      with "1.IH" [OF True Some, of "log_append l (j, scheduled_ops st j)"]
      show ?thesis by auto
    qed
  qed
qed

lemma schedule_jobs_sequential_log:
  "problem (schedule_jobs_sequential p l) = problem (schedule_jobs_sequential p [])"
proof -
  have "seq_init p l = (seq_init p [])\<lparr>log_entries := l\<rparr>" by (simp add: seq_init_def)
  with schedule_loop_log [where st = "seq_init p []" and l = l] show ?thesis
    by (auto simp: schedule_jobs_sequential_def)
qed

lemma repetition_sequential_fst:
  assumes "reset_start_times (fst pl) = reset_start_times p"
  shows "fst (repetition_sequential i pl) =
           problem (schedule_jobs_sequential (reset_start_times p) [])"
    and "reset_start_times (fst (repetition_sequential i pl)) = reset_start_times p"
proof -
  show a: "fst (repetition_sequential i pl) =
           problem (schedule_jobs_sequential (reset_start_times p) [])"
    unfolding repetition_sequential_def Let_def assms fst_conv
    by (rule schedule_jobs_sequential_log)
  show "reset_start_times (fst (repetition_sequential i pl)) = reset_start_times p"
    unfolding a by (simp add: schedule_jobs_sequential_reset reset_start_times_idem)
qed

lemma fold_repetition_sequential:
  "reset_start_times (fst pl) = reset_start_times p \<Longrightarrow>
   reset_start_times (fst (fold repetition_sequential is pl)) = reset_start_times p"
  by (induction "is" arbitrary: pl) (simp_all add: repetition_sequential_fst(2))

lemma main_sequential_last:
  "main_sequential p =
     write_output_file (problem (schedule_jobs_sequential (reset_start_times p) []))"
proof -
  have "[0..<num_repetitions] = [0..<9] @ [9]"
    by (simp add: num_repetitions_def upt_rec)
  then have "fold repetition_sequential [0..<num_repetitions] (p, []) =
      repetition_sequential 9 (fold repetition_sequential [0..<9] (p, []))"
    by simp
  moreover have "reset_start_times (fst (fold repetition_sequential [0..<9] (p, []))) =
      reset_start_times p"
    by (rule fold_repetition_sequential) simp
  ultimately show ?thesis
    by (simp add: main_sequential_def repetition_sequential_fst(1))
qed

subsection \<open>Concrete runs\<close>

text \<open>A valid problem with one job of two operations, the first of duration 999999.\<close>

definition big_problem :: JobShopProblem where
  "big_problem =
     \<lparr>num_jobs = 1, num_machines = 2, num_operations = 2,
      jobs = (\<lambda>job op. if op = 0 then \<lparr>machine = 0, duration = 999999, start_time = -1\<rparr>
                        else \<lparr>machine = 1, duration = 1, start_time = -1\<rparr>)\<rparr>"



lemmas eval_defs =
  schedule_jobs_sequential_def seq_init_def schedule_loop.simps select_job_def select_step_def
  schedule_next_def find_available_time.simps scan_machine_def scan_op_def set_start_time_def
  upt_rec total_ops_def Let_def log_append_def output_rows_def makespan_def makespan_step_def
  write_output_file_def MAX_LOG_ENTRIES_def int_add_def

lemma example_reset: "reset_start_times example_problem = example_problem"
  by (auto simp: reset_start_times_def example_problem_def fun_eq_iff)

lemma big_reset: "reset_start_times big_problem = big_problem"
  by (auto simp: reset_start_times_def big_problem_def fun_eq_iff)

lemma example_run:
  "write_output_file (problem (schedule_jobs_sequential example_problem [])) =
     (7, [[(0, 3), (3, 2)], [(0, 2), (3, 4)]])"
  by (simp add: eval_defs example_problem_def)

lemma example_starts:
  "start_time (jobs (problem (schedule_jobs_sequential example_problem [])) 0 0) = 0"
  "start_time (jobs (problem (schedule_jobs_sequential example_problem [])) 0 1) = 3"
  "start_time (jobs (problem (schedule_jobs_sequential example_problem [])) 1 0) = 0"
  "start_time (jobs (problem (schedule_jobs_sequential example_problem [])) 1 1) = 3"
  by (simp_all add: eval_defs example_problem_def)



lemma big_valid: "valid_problem big_problem"
  by (simp add: valid_problem_def big_problem_def total_ops_def)


section \<open>Specified properties of the sequential scheduler\<close>

text \<open>
  C4. On the instance with job 0 = (machine 0, 3), (machine 1, 2) and
  job 1 = (machine 1, 2), (machine 0, 4) the sequential scheduler assigns the start times
  0 and 3 to job 0 and 0 and 3 to job 1; the makespan is 7, and the run of the whole
  program writes makespan 7 and these start times.
\<close>

theorem example_end_to_end:
  "start_time (jobs (problem (schedule_jobs_sequential example_problem [])) 0 0) = 0 \<and>
   start_time (jobs (problem (schedule_jobs_sequential example_problem [])) 0 1) = 3 \<and>
   start_time (jobs (problem (schedule_jobs_sequential example_problem [])) 1 0) = 0 \<and>
   start_time (jobs (problem (schedule_jobs_sequential example_problem [])) 1 1) = 3 \<and>
   makespan (problem (schedule_jobs_sequential example_problem [])) = 7 \<and>
   main_sequential example_problem = (7, [[(0, 3), (3, 2)], [(0, 2), (3, 4)]])"
proof -
  have "makespan (problem (schedule_jobs_sequential example_problem [])) = 7"
    using example_run by (simp add: write_output_file_def)
  moreover have "main_sequential example_problem = (7, [[(0, 3), (3, 2)], [(0, 2), (3, 4)]])"
    by (simp add: main_sequential_last example_reset example_run)
  ultimately show ?thesis
    using example_starts by simp
qed

text \<open>
  C5. Whenever the selection scan of the main loop selects a job, that job still has
  unscheduled operations, its recorded earliest start is minimal among all jobs with
  unscheduled operations, and among the jobs that tie on this minimum it has the lowest
  index; the loop then advances exactly this job.
\<close>

theorem select_job_minimal_lowest_index:
  assumes "fst (select_job st) = Some job"
  shows "job < num_jobs (problem st) \<and>
     scheduled_ops st job < num_operations (problem st) \<and>
     (\<forall>k < num_jobs (problem st). scheduled_ops st k < num_operations (problem st) \<longrightarrow>
        earliest_starts st job \<le> earliest_starts st k \<and>
        (earliest_starts st k = earliest_starts st job \<longrightarrow> job \<le> k)) \<and>
     (scheduled_count st < total_ops (problem st) \<longrightarrow>
        schedule_loop st = schedule_loop (schedule_next st job))"
proof -
  note sel = select_job_Some [OF assms]
  have "scheduled_count st < total_ops (problem st) \<longrightarrow>
        schedule_loop st = schedule_loop (schedule_next st job)"
    using assms by (simp add: schedule_loop.simps [of st])
  with sel(1,2,4) show ?thesis by blast
qed

theorem select_job_minimal_lowest_index_witness:
  "fst (select_job (seq_init example_problem [])) = Some 0 \<and>
   (1::nat) < num_jobs (problem (seq_init example_problem [])) \<and>
   scheduled_ops (seq_init example_problem []) 1 < num_operations (problem (seq_init example_problem [])) \<and>
   earliest_starts (seq_init example_problem []) 1 = earliest_starts (seq_init example_problem []) 0 \<and>
   earliest_starts (seq_init example_problem []) 0 \<le> earliest_starts (seq_init example_problem []) 1 \<and>
   scheduled_count (seq_init example_problem []) < total_ops (problem (seq_init example_problem [])) \<and>
   schedule_loop (seq_init example_problem []) =
     schedule_loop (schedule_next (seq_init example_problem []) 0)"
proof -
  let ?st = "seq_init example_problem []"
  have sel: "fst (select_job ?st) = Some 0"
    by (simp add: select_job_def select_step_def seq_init_def example_problem_def upt_rec)
  have c: "scheduled_count ?st < total_ops (problem ?st)"
    by (simp add: seq_init_def example_problem_def total_ops_def)
  have e: "(1::nat) < num_jobs (problem ?st)" "scheduled_ops ?st 1 < num_operations (problem ?st)"
    by (simp_all add: seq_init_def example_problem_def)
  from select_job_minimal_lowest_index [OF sel] c
  have "schedule_loop ?st = schedule_loop (schedule_next ?st 0)"
    by blast
  moreover from select_job_minimal_lowest_index [OF sel] e
  have "earliest_starts ?st 0 \<le> earliest_starts ?st 1"
    by blast
  ultimately show ?thesis using sel c e
    by (simp add: seq_init_def)
qed



text \<open>
  C1, at the input where the sequential scheduler breaks it: \<open>big_problem\<close> is valid, and
  the run of the sequential scheduler on it (freshly reset) leaves the second operation
  of job 0 with start time \<open>-1\<close>, so the schedule is not valid; the written output shows
  the same.
\<close>

theorem sequential_leaves_operation_unscheduled:
  "valid_problem big_problem \<and>
   start_time (jobs (problem (schedule_jobs_sequential (reset_start_times big_problem) [])) 0 0) = 0 \<and>
   start_time (jobs (problem (schedule_jobs_sequential (reset_start_times big_problem) [])) 0 1) = -1 \<and>
   \<not> valid_schedule (problem (schedule_jobs_sequential (reset_start_times big_problem) []))"
proof -
  let ?p = "problem (schedule_jobs_sequential (reset_start_times big_problem) [])"
  have a: "start_time (jobs ?p 0 0) = 0" "start_time (jobs ?p 0 1) = -1"
    unfolding big_reset by (simp_all add: eval_defs big_problem_def)
  have n: "(0::nat) < num_jobs ?p" "(1::nat) < num_operations ?p"
    unfolding big_reset by (simp_all add: eval_defs big_problem_def)
  have "\<not> valid_schedule ?p"
  proof
    assume "valid_schedule ?p"
    with n have "0 \<le> start_time (jobs ?p 0 1)"
      unfolding valid_schedule_def by blast
    with a show False by simp
  qed
  with a big_valid show ?thesis by simp
qed

theorem sequential_leaves_operation_unscheduled_witness:
  "(0::nat) < num_jobs big_problem \<and> (1::nat) < num_operations big_problem \<and>
   0 \<le> machine (jobs big_problem 0 1) \<and>
   machine (jobs big_problem 0 1) < int (num_machines big_problem) \<and>
   0 \<le> duration (jobs big_problem 0 1) \<and>
   start_time (jobs (problem (schedule_jobs_sequential (reset_start_times big_problem) [])) 0 1) = -1 \<and>
   \<not> 0 \<le> start_time (jobs (problem (schedule_jobs_sequential (reset_start_times big_problem) [])) 0 1)"
proof -
  have n: "(0::nat) < num_jobs big_problem" "(1::nat) < num_operations big_problem"
    by (simp_all add: big_problem_def)
  from sequential_leaves_operation_unscheduled have v: "valid_problem big_problem"
    and s: "start_time (jobs (problem (schedule_jobs_sequential (reset_start_times big_problem) [])) 0 1) = -1"
    by simp_all
  from v n have "0 \<le> machine (jobs big_problem 0 1) \<and>
      machine (jobs big_problem 0 1) < int (num_machines big_problem) \<and>
      0 \<le> duration (jobs big_problem 0 1)"
    unfolding valid_problem_def by blast
  with n s show ?thesis by simp
qed

section \<open>The parallel scheduler\<close>

text \<open>
  The state of \<^verbatim>\<open>schedule_with_strict_division\<close>: the global problem, the local arrays
  \<^verbatim>\<open>scheduled_ops\<close>, \<^verbatim>\<open>earliest_starts\<close>, \<^verbatim>\<open>op_assigned\<close> and \<^verbatim>\<open>thread_worked\<close> (0 and 1
  as \<open>False\<close> and \<open>True\<close>), the counters \<^verbatim>\<open>assigned_count\<close> and \<^verbatim>\<open>iteration_count\<close>, the
  per-thread logs of the problem struct, and the messages printed so far.
\<close>

datatype console_msg =
  Deadlock_warning nat
| Incomplete_error nat nat nat

record par_state = sched_state +
  op_assigned :: "nat \<Rightarrow> nat \<Rightarrow> nat"
  assigned_count :: nat
  iteration_count :: nat
  thread_worked :: "nat \<Rightarrow> bool"
  thread_logs :: "nat \<Rightarrow> log_entry list"
  console :: "console_msg list"

text \<open>Scheduling operation \<open>op\<close> of \<open>job\<close> and logging it for thread \<open>thread_id\<close>: the
  statements shared by the critical section and the fallback.\<close>

definition par_commit :: "nat \<Rightarrow> nat \<Rightarrow> nat \<Rightarrow> par_state \<Rightarrow> par_state" where
  "par_commit thread_id job op st =
     (let p = problem st;
          m = machine (jobs p job op);
          d = duration (jobs p job op);
          job_earliest_start = earliest_starts st job;
          s = find_available_time p m d job_earliest_start
      in st\<lparr>problem := set_start_time p job op s,
            scheduled_ops := (scheduled_ops st)(job := scheduled_ops st job + 1),
            earliest_starts := (earliest_starts st)(job := int_add s d),
            assigned_count := assigned_count st + 1,
            thread_logs := (thread_logs st)
              (thread_id := log_append (thread_logs st thread_id) (job, op))\<rparr>)"

text \<open>
  The body of the \<^verbatim>\<open>for (job ...)\<close> loop inside the critical section, for the thread
  \<open>thread_id\<close>, on the state and the thread's private \<^verbatim>\<open>thread_scheduled\<close> and
  \<^verbatim>\<open>scheduled_this_iteration\<close> (a reduction variable, private to the thread and 0 at
  its start).
\<close>

definition thread_job :: "nat \<Rightarrow> nat \<Rightarrow> par_state \<times> bool \<times> nat \<Rightarrow> par_state \<times> bool \<times> nat" where
  "thread_job thread_id job acc =
     (case acc of (st, thread_scheduled, scheduled_this_iteration) \<Rightarrow>
        if op_assigned st job 0 = thread_id then
          (let op = scheduled_ops st job
           in if op < num_operations (problem st)
              then (par_commit thread_id job op st, True, scheduled_this_iteration + 1)
              else acc)
        else acc)"

text \<open>
  One thread of the parallel region: its critical section, then the update of
  \<^verbatim>\<open>thread_worked\<close>; the second component adds the thread's private count to the
  reduction.
\<close>

definition thread_body :: "nat \<Rightarrow> par_state \<times> nat \<Rightarrow> par_state \<times> nat" where
  "thread_body thread_id acc =
     (case fold (thread_job thread_id) [0..<num_jobs (problem (fst acc))] (fst acc, False, 0) of
        (st, thread_scheduled, scheduled_this_iteration) \<Rightarrow>
          ((if thread_scheduled
            then st\<lparr>thread_worked := (thread_worked st)(thread_id := True)\<rparr> else st),
           snd acc + scheduled_this_iteration))"

text \<open>
  The parallel region of one iteration. The critical section serialises the threads;
  \<open>order\<close> lists the threads of the team in the order in which they pass it: a
  permutation of \<open>0, ..., num_threads - 1\<close> when the region gets the \<^verbatim>\<open>num_threads\<close>
  threads it asks for, a shorter list when OpenMP gives it fewer. The shared variables are
  read and written inside the critical section only, except \<^verbatim>\<open>thread_worked\<close>, which
  each thread writes for itself and which is read after the region. The result is the
  state and \<^verbatim>\<open>scheduled_this_iteration\<close> after the reduction.
\<close>

definition run_round :: "nat list \<Rightarrow> par_state \<Rightarrow> par_state \<times> nat" where
  "run_round order st = fold thread_body order (st, 0)"

text \<open>The search \<^verbatim>\<open>for (t = 0; t < num_threads; t++) if (thread_worked[t] == 0) ... break\<close>:
  the first thread that has not worked yet.\<close>

definition find_idle :: "nat \<Rightarrow> (nat \<Rightarrow> bool) \<Rightarrow> nat option" where
  "find_idle num_threads worked = List.find (\<lambda>t. \<not> worked t) [0..<num_threads]"

text \<open>The redistribution loop after an iteration without progress, on the state and
  \<^verbatim>\<open>all_jobs_assigned\<close>.\<close>

definition reassign_job :: "nat \<Rightarrow> nat \<Rightarrow> par_state \<times> bool \<Rightarrow> par_state \<times> bool" where
  "reassign_job num_threads job acc =
     (case acc of (st, all_jobs_assigned) \<Rightarrow>
        if scheduled_ops st job < num_operations (problem st) then
          (case find_idle num_threads (thread_worked st) of
             Some t \<Rightarrow>
               (st\<lparr>op_assigned := (op_assigned st)
                     (job := (\<lambda>op. if op < num_operations (problem st) then t
                                     else op_assigned st job op))\<rparr>, False)
           | None \<Rightarrow> acc)
        else acc)"

definition reassign :: "nat \<Rightarrow> par_state \<Rightarrow> par_state \<times> bool" where
  "reassign num_threads st =
     fold (reassign_job num_threads) [0..<num_jobs (problem st)] (st, True)"

text \<open>The single-threaded fallback: for every job, its remaining operations in order,
  logged for thread 0.\<close>

definition fallback_job :: "nat \<Rightarrow> par_state \<Rightarrow> par_state" where
  "fallback_job job st =
     fold (par_commit 0 job) [scheduled_ops st job..<num_operations (problem st)] st"

definition fallback :: "par_state \<Rightarrow> par_state" where
  "fallback st = fold fallback_job [0..<num_jobs (problem st)] st"

text \<open>One iteration of the main loop; the flag tells whether the loop is left by the
  \<^verbatim>\<open>break\<close> after the fallback.\<close>

definition par_iteration :: "nat list \<Rightarrow> nat \<Rightarrow> par_state \<Rightarrow> par_state \<times> bool" where
  "par_iteration order num_threads st =
     (let st1 = st\<lparr>iteration_count := iteration_count st + 1\<rparr>;
          r = run_round order st1
      in if snd r = 0 then
           (let ra = reassign num_threads (fst r)
            in if snd ra
               then (fallback ((fst ra)\<lparr>console := console (fst ra) @
                       [Deadlock_warning (iteration_count (fst ra))]\<rparr>), True)
               else (fst ra, False))
         else (fst r, False))"



lemma par_commit_fields:
  "problem (par_commit t job op st) =
     set_start_time (problem st) job op
       (find_available_time (problem st) (machine (jobs (problem st) job op))
          (duration (jobs (problem st) job op)) (earliest_starts st job))"
  "scheduled_ops (par_commit t job op st) = (scheduled_ops st)(job := Suc (scheduled_ops st job))"
  "earliest_starts (par_commit t job op st) =
     (earliest_starts st)(job := int_add
        (find_available_time (problem st) (machine (jobs (problem st) job op))
          (duration (jobs (problem st) job op)) (earliest_starts st job))
        (duration (jobs (problem st) job op)))"
  "assigned_count (par_commit t job op st) = Suc (assigned_count st)"
  "op_assigned (par_commit t job op st) = op_assigned st"
  "iteration_count (par_commit t job op st) = iteration_count st"
  "thread_worked (par_commit t job op st) = thread_worked st"
  "console (par_commit t job op st) = console st"
  "thread_logs (par_commit t job op st) =
     (thread_logs st)(t := log_append (thread_logs st t) (job, op))"
  by (simp_all add: par_commit_def Let_def)

text \<open>What the scheduling steps leave alone: the dimensions of the problem, the
  ownership table, the iteration counter, the flags of the threads that have worked and
  the printed messages; \<^verbatim>\<open>scheduled_ops\<close> only grows.\<close>

definition par_frame :: "par_state \<Rightarrow> par_state \<Rightarrow> bool" where
  "par_frame st st' \<longleftrightarrow>
     num_jobs (problem st') = num_jobs (problem st) \<and>
     num_operations (problem st') = num_operations (problem st) \<and>
     op_assigned st' = op_assigned st \<and>
     iteration_count st' = iteration_count st \<and>
     console st' = console st \<and>
     (\<forall>t. thread_worked st t \<longrightarrow> thread_worked st' t) \<and>
     (\<forall>job. scheduled_ops st job \<le> scheduled_ops st' job)"

lemma par_frame_refl: "par_frame st st"
  by (simp add: par_frame_def)

lemma par_frame_trans: "par_frame a b \<Longrightarrow> par_frame b c \<Longrightarrow> par_frame a c"
  unfolding par_frame_def by (metis order_trans)

lemma par_frame_commit: "par_frame st (par_commit t job op st)"
  by (simp add: par_frame_def par_commit_fields set_start_time_simps)

lemma par_frame_thread_job: "par_frame (fst acc) (fst (thread_job t job acc))"
  by (cases acc) (simp add: thread_job_def Let_def par_frame_refl par_frame_commit)

lemma par_frame_thread_jobs: "par_frame (fst acc) (fst (fold (thread_job t) js acc))"
proof (induction js arbitrary: acc)
  case Nil
  show ?case by (simp add: par_frame_refl)
next
  case (Cons j js)
  from par_frame_thread_job [of acc t j] Cons.IH [of "thread_job t j acc"]
  show ?case by (simp add: par_frame_trans)
qed

lemma par_frame_thread_body: "par_frame (fst acc) (fst (thread_body t acc))"
proof -
  let ?r = "fold (thread_job t) [0..<num_jobs (problem (fst acc))] (fst acc, False, 0)"
  have f: "par_frame (fst acc) (fst ?r)"
    using par_frame_thread_jobs [of "(fst acc, False, 0)" t] by simp
  have "par_frame (fst ?r) (fst (thread_body t acc))"
    by (cases ?r) (simp add: thread_body_def par_frame_def)
  with f show ?thesis by (rule par_frame_trans)
qed

lemma par_frame_threads: "par_frame (fst acc) (fst (fold thread_body order acc))"
proof (induction order arbitrary: acc)
  case Nil
  show ?case by (simp add: par_frame_refl)
next
  case (Cons t order)
  from par_frame_thread_body [of acc t] Cons.IH [of "thread_body t acc"]
  show ?case by (simp add: par_frame_trans)
qed

lemma par_frame_run_round: "par_frame st (fst (run_round order st))"
  using par_frame_threads [of "(st, 0)" order] by (simp add: run_round_def)

lemma reassign_job_iteration_count:
  "iteration_count (fst (reassign_job T job acc)) = iteration_count (fst acc)"
  by (cases acc) (simp add: reassign_job_def split: option.split)

lemma reassign_iteration_count:
  "iteration_count (fst (reassign T st)) = iteration_count st"
proof -
  have "iteration_count (fst (fold (reassign_job T) js acc)) = iteration_count (fst acc)" for js acc
    by (induction js arbitrary: acc) (simp_all add: reassign_job_iteration_count)
  then show ?thesis by (simp add: reassign_def)
qed

lemma par_iteration_count:
  "\<not> snd (par_iteration order T st) \<Longrightarrow>
   iteration_count (fst (par_iteration order T st)) = Suc (iteration_count st)"
proof -
  let ?st1 = "st\<lparr>iteration_count := iteration_count st + 1\<rparr>"
  have "iteration_count (fst (run_round order ?st1)) = Suc (iteration_count st)"
    using par_frame_run_round [of ?st1 order] by (simp add: par_frame_def)
  then show "\<not> snd (par_iteration order T st) \<Longrightarrow>
      iteration_count (fst (par_iteration order T st)) = Suc (iteration_count st)"
    by (simp add: par_iteration_def Let_def reassign_iteration_count split: if_splits)
qed

text \<open>
  The main loop \<^verbatim>\<open>while (assigned_count < total_ops && iteration_count < max_iterations)\<close>.
  \<open>orders k\<close> is the order in which the threads of the team pass the critical section in
  the iteration that starts with \<^verbatim>\<open>iteration_count = k\<close>.
\<close>

function par_loop :: "(nat \<Rightarrow> nat list) \<Rightarrow> nat \<Rightarrow> nat \<Rightarrow> nat \<Rightarrow> par_state \<Rightarrow> par_state" where
  "par_loop orders num_threads ops_total max_iterations st =
     (if assigned_count st < ops_total \<and> iteration_count st < max_iterations then
        (if snd (par_iteration (orders (iteration_count st)) num_threads st)
         then fst (par_iteration (orders (iteration_count st)) num_threads st)
         else par_loop orders num_threads ops_total max_iterations
                (fst (par_iteration (orders (iteration_count st)) num_threads st)))
      else st)"
  by pat_completeness auto
termination
  by (relation "measure (\<lambda>(orders, num_threads, ops_total, max_iterations, st).
        max_iterations - iteration_count st)")
     (auto simp: par_iteration_count)

declare par_loop.simps [simp del]

text \<open>
  The initial state. \<^verbatim>\<open>op_assigned\<close> is an uninitialised local array of which the entries
  \<open>[job][op]\<close> with \<open>job < num_jobs\<close> and \<open>op < num_operations\<close> are set to
  \<open>job % num_threads\<close>; the loop reads \<open>[job][0]\<close> for \<open>job < num_jobs\<close> only, and runs
  only when \<open>num_operations > 0\<close>, so the other entries (0 in the model) are never read.
\<close>

definition par_init :: "nat \<Rightarrow> JobShopProblem \<Rightarrow> (nat \<Rightarrow> log_entry list) \<Rightarrow> par_state" where
  "par_init num_threads p logs =
     \<lparr>problem = p, scheduled_ops = (\<lambda>_. 0), earliest_starts = (\<lambda>_. 0),
      op_assigned = (\<lambda>job op. if job < num_jobs p \<and> op < num_operations p
                               then job mod num_threads else 0),
      assigned_count = 0, iteration_count = 0, thread_worked = (\<lambda>_. False),
      thread_logs = logs, console = []\<rparr>"

text \<open>The verification after the loop: an error message and return value 0 when not
  every operation was scheduled, return value 1 otherwise.\<close>

definition verify_all_scheduled :: "nat \<Rightarrow> par_state \<Rightarrow> par_state \<times> int" where
  "verify_all_scheduled ops_total st =
     (if assigned_count st \<noteq> ops_total
      then (st\<lparr>console := console st @
              [Incomplete_error (assigned_count st) ops_total (iteration_count st)]\<rparr>, 0)
      else (st, 1))"

text \<open>\<^verbatim>\<open>schedule_with_strict_division\<close>: the final state and the return value.\<close>

definition schedule_with_strict_division ::
  "(nat \<Rightarrow> nat list) \<Rightarrow> nat \<Rightarrow> JobShopProblem \<Rightarrow> (nat \<Rightarrow> log_entry list) \<Rightarrow> par_state \<times> int" where
  "schedule_with_strict_division orders num_threads p logs =
     (let ops_total = total_ops p;
          max_iterations = ops_total * 10
      in verify_all_scheduled ops_total
           (par_loop orders num_threads ops_total max_iterations (par_init num_threads p logs)))"

text \<open>Evaluation of a run: a \<^verbatim>\<open>let\<close> is unfolded once the bound value has been
  computed.\<close>

lemma Let_weak_cong: "a = b \<Longrightarrow> Let a t = Let b t"
  by simp

lemmas par_run_defs =
  schedule_with_strict_division_def verify_all_scheduled_def par_init_def par_loop.simps par_iteration_def run_round_def
  thread_body_def thread_job_def par_commit_def reassign_def reassign_job_def find_idle_def
  fallback_def fallback_job_def
  find_available_time.simps scan_machine_def scan_op_def set_start_time_def
  upt_rec total_ops_def Let_def output_rows_def int_add_def

lemmas par_eval_defs = par_run_defs log_append_def MAX_LOG_ENTRIES_def

section \<open>Properties of the parallel scheduler\<close>










subsection \<open>Counting the operations of a round\<close>






subsection \<open>Progress of a round\<close>





subsection \<open>The redistribution\<close>

lemma find_idle_Some:
  "find_idle T worked = Some t \<longleftrightarrow> t < T \<and> \<not> worked t \<and> (\<forall>t' < t. worked t')"
  by (auto simp: find_idle_def find_Some_iff)

lemma find_idle_None:
  "find_idle T worked = None \<longleftrightarrow> (\<forall>t < T. worked t)"
  by (auto simp: find_idle_def find_None_iff)

lemma reassign_jobs_no_idle:
  "find_idle T (thread_worked st) = None \<Longrightarrow> fold (reassign_job T) js (st, b) = (st, b)"
  by (induction js) (simp_all add: reassign_job_def)

lemma reassign_no_idle:
  "find_idle T (thread_worked st) = None \<Longrightarrow> reassign T st = (st, True)"
  by (simp add: reassign_def reassign_jobs_no_idle)

text \<open>With an idle thread \<open>t\<close> (the first one), the redistribution loop gives every job
  of \<open>js\<close> that has operations left to \<open>t\<close> and changes nothing else.\<close>

lemma reassign_jobs_idle:
  assumes "find_idle T (thread_worked st) = Some t"
  shows "fold (reassign_job T) js (st, b) =
     (st\<lparr>op_assigned := (\<lambda>job.
          if job \<in> set js \<and> scheduled_ops st job < num_operations (problem st)
          then (\<lambda>op. if op < num_operations (problem st) then t else op_assigned st job op)
          else op_assigned st job)\<rparr>,
      b \<and> (\<forall>job \<in> set js. \<not> scheduled_ops st job < num_operations (problem st)))"
  using assms
proof (induction js arbitrary: st b)
  case Nil
  show ?case by simp
next
  case (Cons x xs)
  show ?case
  proof (cases "scheduled_ops st x < num_operations (problem st)")
    case False
    then have "reassign_job T x (st, b) = (st, b)" by (simp add: reassign_job_def)
    with Cons.IH [OF Cons.prems, of b] False show ?thesis
      by (auto simp: fun_eq_iff)
  next
    case True
    let ?st1 = "st\<lparr>op_assigned := (op_assigned st)
        (x := (\<lambda>op. if op < num_operations (problem st) then t else op_assigned st x op))\<rparr>"
    from True Cons.prems have r: "reassign_job T x (st, b) = (?st1, False)"
      by (simp add: reassign_job_def)
    have idle: "find_idle T (thread_worked ?st1) = Some t" using Cons.prems by simp
    show ?thesis
      unfolding fold_simps r Cons.IH [OF idle] using True
      by (auto simp: fun_eq_iff)
  qed
qed


subsection \<open>The instance is left unchanged\<close>













subsection \<open>The fallback\<close>












subsection \<open>The main loop with full teams\<close>







section \<open>The main programs\<close>

text \<open>The clamping of the thread count in \<^verbatim>\<open>main\<close> of the parallel program.\<close>

definition effective_num_threads :: "int \<Rightarrow> int \<Rightarrow> int" where
  "effective_num_threads num_threads ops_total =
     (let e1 = (if num_threads > ops_total then ops_total else num_threads);
          e2 = (if e1 > 8 \<and> ops_total < 100 then 8 else e1)
      in if e2 < 1 then 1 else e2)"






text \<open>A problem with three jobs of one operation each, and the problem without jobs.\<close>

definition three_jobs :: JobShopProblem where
  "three_jobs =
     \<lparr>num_jobs = 3, num_machines = 1, num_operations = 1,
      jobs = (\<lambda>job op. \<lparr>machine = 0, duration = 1, start_time = -1\<rparr>)\<rparr>"

definition empty_problem :: JobShopProblem where
  "empty_problem =
     \<lparr>num_jobs = 0, num_machines = 0, num_operations = 0,
      jobs = (\<lambda>job op. \<lparr>machine = 0, duration = 0, start_time = -1\<rparr>)\<rparr>"

text \<open>
  The state after the parallel region of the second iteration on \<open>three_jobs\<close> with three
  threads requested, when in both iterations only thread 0 passes the critical section:
  job 0 is done, jobs 1 and 2 have not started, threads 1 and 2 have not worked.
\<close>

definition stalled_round :: "par_state \<times> nat" where
  "stalled_round =
     run_round [0]
       ((fst (par_iteration [0] 3 (par_init 3 three_jobs (\<lambda>_. []))))
          \<lparr>iteration_count := 2\<rparr>)"

lemma stalled_round_facts:
  "snd stalled_round = 0"
  "assigned_count (fst stalled_round) = 1"
  "scheduled_ops (fst stalled_round) 0 = 1"
  "scheduled_ops (fst stalled_round) 1 = 0"
  "scheduled_ops (fst stalled_round) 2 = 0"
  "thread_worked (fst stalled_round) 0"
  "\<not> thread_worked (fst stalled_round) 1"
  "\<not> thread_worked (fst stalled_round) 2"
  "num_jobs (problem (fst stalled_round)) = 3"
  "num_operations (problem (fst stalled_round)) = 1"
  "op_assigned (fst stalled_round) 1 0 = 1"
  "op_assigned (fst stalled_round) 2 0 = 2"
  by (simp_all add: stalled_round_def par_eval_defs three_jobs_def cong: Let_weak_cong)

lemma stalled_round_reassign:
  "op_assigned (fst (reassign 3 (fst stalled_round))) 1 0 = 1"
  "op_assigned (fst (reassign 3 (fst stalled_round))) 2 0 = 1"
  "\<not> snd (reassign 3 (fst stalled_round))"
  by (simp_all add: stalled_round_def par_eval_defs three_jobs_def cong: Let_weak_cong)

text \<open>
  A valid problem whose durations do not fit into an \<^verbatim>\<open>int\<close> together (input file
  \<^verbatim>\<open>2 2 / 1 5 0 2147483647 / 0 10 1 1\<close>), and the teams of the runs considered below: both
  threads of a team of two in every iteration, thread 0 alone in every iteration, and
  both threads in the first iteration but thread 0 alone afterwards.
\<close>

definition overflow_problem :: JobShopProblem where
  "overflow_problem =
     \<lparr>num_jobs = 2, num_machines = 2, num_operations = 2,
      jobs = (\<lambda>job op.
        if job = 0 then (if op = 0 then \<lparr>machine = 1, duration = 5, start_time = -1\<rparr>
                         else \<lparr>machine = 0, duration = 2147483647, start_time = -1\<rparr>)
        else (if op = 0 then \<lparr>machine = 0, duration = 10, start_time = -1\<rparr>
              else \<lparr>machine = 1, duration = 1, start_time = -1\<rparr>))\<rparr>"







section \<open>Specified properties of the parallel scheduler and the main programs\<close>

text \<open>
  C7, as the code has it. If some thread has not worked yet, the redistribution after an
  iteration without progress gives all operations of every job that still has
  unscheduled operations to the lowest-numbered such thread: all these jobs go to the
  same thread, since the flags do not change during the redistribution; the other jobs
  keep their owner and \<^verbatim>\<open>all_jobs_assigned\<close> is cleared exactly when some job was
  reassigned. If every thread has worked, nothing changes and \<^verbatim>\<open>all_jobs_assigned\<close>
  stays set.
\<close>

theorem reassign_first_idle:
  "(find_idle T (thread_worked st) = Some t \<longrightarrow>
      t < T \<and> \<not> thread_worked st t \<and> (\<forall>t' < t. thread_worked st t') \<and>
      (\<forall>job < num_jobs (problem st). scheduled_ops st job < num_operations (problem st) \<longrightarrow>
         (\<forall>op < num_operations (problem st). op_assigned (fst (reassign T st)) job op = t)) \<and>
      (\<forall>job. \<not> (job < num_jobs (problem st) \<and> scheduled_ops st job < num_operations (problem st)) \<longrightarrow>
         op_assigned (fst (reassign T st)) job = op_assigned st job) \<and>
      (snd (reassign T st) \<longleftrightarrow>
         \<not> (\<exists>job < num_jobs (problem st). scheduled_ops st job < num_operations (problem st))) \<and>
      thread_worked (fst (reassign T st)) = thread_worked st \<and>
      scheduled_ops (fst (reassign T st)) = scheduled_ops st \<and>
      problem (fst (reassign T st)) = problem st) \<and>
   (find_idle T (thread_worked st) = None \<longrightarrow> reassign T st = (st, True))"
proof (intro conjI impI)
  assume "find_idle T (thread_worked st) = None"
  then show "reassign T st = (st, True)" by (rule reassign_no_idle)
next
  assume idle: "find_idle T (thread_worked st) = Some t"
  then show "t < T" "\<not> thread_worked st t" "\<forall>t' < t. thread_worked st t'"
    by (simp_all add: find_idle_Some)
  note r = reassign_jobs_idle [OF idle, of "[0..<num_jobs (problem st)]" True, folded reassign_def]
  show "\<forall>job < num_jobs (problem st). scheduled_ops st job < num_operations (problem st) \<longrightarrow>
         (\<forall>op < num_operations (problem st). op_assigned (fst (reassign T st)) job op = t)"
    by (simp add: r)
  show "\<forall>job. \<not> (job < num_jobs (problem st) \<and> scheduled_ops st job < num_operations (problem st)) \<longrightarrow>
         op_assigned (fst (reassign T st)) job = op_assigned st job"
    by (simp add: r)
  show "snd (reassign T st) \<longleftrightarrow>
         \<not> (\<exists>job < num_jobs (problem st). scheduled_ops st job < num_operations (problem st))"
    by (auto simp: r)
  show "thread_worked (fst (reassign T st)) = thread_worked st"
    "scheduled_ops (fst (reassign T st)) = scheduled_ops st"
    "problem (fst (reassign T st)) = problem st"
    by (simp_all add: r)
qed

theorem reassign_first_idle_witness:
  "find_idle 3 (thread_worked (fst stalled_round)) = Some 1 \<and>
   (1::nat) < num_jobs (problem (fst stalled_round)) \<and>
   (2::nat) < num_jobs (problem (fst stalled_round)) \<and>
   scheduled_ops (fst stalled_round) 1 < num_operations (problem (fst stalled_round)) \<and>
   scheduled_ops (fst stalled_round) 2 < num_operations (problem (fst stalled_round)) \<and>
   \<not> scheduled_ops (fst stalled_round) 0 < num_operations (problem (fst stalled_round)) \<and>
   op_assigned (fst (reassign 3 (fst stalled_round))) 1 0 = 1 \<and>
   op_assigned (fst (reassign 3 (fst stalled_round))) 2 0 = 1 \<and>
   op_assigned (fst (reassign 3 (fst stalled_round))) 0 = op_assigned (fst stalled_round) 0 \<and>
   \<not> snd (reassign 3 (fst stalled_round))"
proof -
  have idle: "find_idle 3 (thread_worked (fst stalled_round)) = Some 1"
    using stalled_round_facts by (simp add: find_idle_Some)
  note f = stalled_round_facts
  from reassign_first_idle [of 3 "fst stalled_round" 1] idle
  have a: "\<forall>job < num_jobs (problem (fst stalled_round)).
         scheduled_ops (fst stalled_round) job < num_operations (problem (fst stalled_round)) \<longrightarrow>
         (\<forall>op < num_operations (problem (fst stalled_round)).
            op_assigned (fst (reassign 3 (fst stalled_round))) job op = 1)"
    and b: "\<forall>job. \<not> (job < num_jobs (problem (fst stalled_round)) \<and>
          scheduled_ops (fst stalled_round) job < num_operations (problem (fst stalled_round))) \<longrightarrow>
         op_assigned (fst (reassign 3 (fst stalled_round))) job = op_assigned (fst stalled_round) job"
    and c: "snd (reassign 3 (fst stalled_round)) \<longleftrightarrow>
         \<not> (\<exists>job < num_jobs (problem (fst stalled_round)).
              scheduled_ops (fst stalled_round) job < num_operations (problem (fst stalled_round)))"
    by blast+
  from a f have "op_assigned (fst (reassign 3 (fst stalled_round))) 1 0 = 1"
    "op_assigned (fst (reassign 3 (fst stalled_round))) 2 0 = 1"
    by simp_all
  moreover from b f have "op_assigned (fst (reassign 3 (fst stalled_round))) 0 =
      op_assigned (fst stalled_round) 0"
    by simp
  moreover have "\<exists>job < num_jobs (problem (fst stalled_round)).
      scheduled_ops (fst stalled_round) job < num_operations (problem (fst stalled_round))"
    using f by (intro exI [of _ 1]) simp
  with c have "\<not> snd (reassign 3 (fst stalled_round))" by blast
  ultimately show ?thesis using idle f by simp
qed

text \<open>
  C7 as stated fails: after the stalled iteration \<open>stalled_round\<close> (no operation newly
  scheduled, two of three operations left) the jobs 1 and 2 both have unscheduled
  operations and the threads 1 and 2 are both idle, yet both jobs are reassigned to
  thread 1.
\<close>

theorem reassign_same_thread_counterexample:
  "snd stalled_round = 0 \<and>
   assigned_count (fst stalled_round) < total_ops (problem (fst stalled_round)) \<and>
   scheduled_ops (fst stalled_round) 1 < num_operations (problem (fst stalled_round)) \<and>
   scheduled_ops (fst stalled_round) 2 < num_operations (problem (fst stalled_round)) \<and>
   \<not> thread_worked (fst stalled_round) 1 \<and>
   \<not> thread_worked (fst stalled_round) 2 \<and>
   op_assigned (fst (reassign 3 (fst stalled_round))) 1 0 =
     op_assigned (fst (reassign 3 (fst stalled_round))) 2 0"
  using stalled_round_facts stalled_round_reassign by (simp add: total_ops_def)

text \<open>
  C9, as the code has it. For a requested thread count of at least 1 the effective thread
  count is at least 1 and at most the requested count; it is at most the total number of
  operations when there is at least one operation, at most 8 when there are fewer than
  100 operations, and 1 when there is no operation.
\<close>

theorem effective_num_threads_clamped:
  assumes "1 \<le> n"
  shows "1 \<le> effective_num_threads n t \<and> effective_num_threads n t \<le> n \<and>
     (1 \<le> t \<longrightarrow> effective_num_threads n t \<le> t) \<and>
     (t < 100 \<longrightarrow> effective_num_threads n t \<le> 8) \<and>
     (t < 1 \<longrightarrow> effective_num_threads n t = 1)"
  using assms by (auto simp: effective_num_threads_def Let_def)

theorem effective_num_threads_clamped_witness:
  "(1::int) \<le> 10 \<and> (1::int) \<le> 5 \<and> (5::int) < 100 \<and>
   effective_num_threads 10 5 = 5 \<and> effective_num_threads 10 5 \<le> 10 \<and>
   effective_num_threads 10 5 \<le> 8 \<and> 1 \<le> effective_num_threads 10 5 \<and>
   (0::int) < 1 \<and> effective_num_threads 10 0 = 1"
proof -
  have h: "(1::int) \<le> 10" by simp
  from effective_num_threads_clamped [OF h, of 5] effective_num_threads_clamped [OF h, of 0]
  have "effective_num_threads 10 5 \<le> 5" "effective_num_threads 10 5 \<le> 8"
    "1 \<le> effective_num_threads 10 5" "effective_num_threads 10 0 = 1"
    by simp_all
  moreover have "effective_num_threads 10 5 = 5"
    by (simp add: effective_num_threads_def)
  ultimately show ?thesis by simp
qed

text \<open>
  C9 as stated fails for a loaded problem without operations: with 4 threads requested
  for \<open>empty_problem\<close> the effective thread count is 1, above the total of 0 operations.
\<close>

theorem effective_num_threads_counterexample:
  "(1::int) \<le> 4 \<and> total_ops empty_problem = 0 \<and>
   effective_num_threads 4 (int (total_ops empty_problem)) = 1 \<and>
   \<not> effective_num_threads 4 (int (total_ops empty_problem)) \<le> int (total_ops empty_problem)"
  by (simp add: effective_num_threads_def total_ops_def empty_problem_def)

text \<open>The states at the head of the main loop of \<^verbatim>\<open>schedule_with_strict_division\<close> in a
  run with \<open>T\<close> threads on the freshly reset problem \<open>p\<close>, whatever threads pass the
  critical section in each iteration.\<close>

inductive par_reach :: "JobShopProblem \<Rightarrow> nat \<Rightarrow> par_state \<Rightarrow> bool"
  for p :: JobShopProblem and T :: nat where
  start: "par_reach p T (par_init T (reset_start_times p) logs)"
| step: "par_reach p T st \<Longrightarrow> assigned_count st < total_ops p \<Longrightarrow>
         iteration_count st < total_ops p * 10 \<Longrightarrow> \<not> snd (par_iteration order T st) \<Longrightarrow>
         par_reach p T (fst (par_iteration order T st))"








subsection \<open>The repetitions of main in the parallel program\<close>




subsection \<open>Concrete runs of the parallel scheduler\<close>


lemma overflow_valid: "valid_problem overflow_problem"
  by (simp add: valid_problem_def overflow_problem_def total_ops_def)


lemma overflow_total: "total_duration overflow_problem = 2147483663"
  by (simp add: total_duration_def overflow_problem_def lessThan_Suc eval_nat_numeral)

















end
